theory Spec2Isabelle
  imports Complex_Main "HOL-Library.Log_Nat"
begin

section \<open>Python numbers\<close>

text \<open>
  The script \<^verbatim>\<open>extension/icons/create_icons.py\<close> computes its gradient with Python's
  true division: \<^verbatim>\<open>int(102 + (118 - 102) * i / size)\<close>. The product is an exact
  (unbounded) integer; \<^verbatim>\<open>/\<close> on two integers yields the binary64 number nearest to the
  exact quotient (ties to even); \<^verbatim>\<open>int + float\<close> converts the integer and adds in
  binary64, again rounding to nearest; \<^verbatim>\<open>int(x)\<close> truncates toward zero.

  A finite binary64 value is represented by the rational number it denotes. \<open>binary64\<close>
  rounds a rational to the nearest representable one: 53 significant bits, the exponent of
  the unit in the last place never below \<open>-1074\<close> (subnormal numbers). Every quantity
  the script rounds has magnitude below \<open>2^8\<close>, so overflow to infinity does not occur
  and is not represented.
\<close>

definition ilog2 :: "rat \<Rightarrow> int" where
  \<comment> \<open>for \<open>0 < x\<close>, the exponent \<open>e\<close> with \<open>2^e \<le> x < 2^(e+1)\<close>\<close>
  "ilog2 x = (if 1 \<le> x then bitlen \<lfloor>x\<rfloor> - 1 else - bitlen (\<lceil>1 / x\<rceil> - 1))"

definition round_half_even :: "rat \<Rightarrow> int" where
  "round_half_even x =
     (let f = \<lfloor>x\<rfloor>; d = x - of_int f
      in if d < 1 / 2 then f else if 1 / 2 < d then f + 1 else if even f then f else f + 1)"

definition binary64 :: "rat \<Rightarrow> rat" where
  "binary64 x =
     (if x = 0 then 0
      else let q = 2 powi (max (ilog2 \<bar>x\<bar>) (- 1022) - 52)
           in of_int (round_half_even (x / q)) * q)"

definition py_truediv :: "int \<Rightarrow> int \<Rightarrow> rat" where
  \<comment> \<open>\<^verbatim>\<open>a / b\<close> on integers; the script divides only inside \<^verbatim>\<open>for i in range(size)\<close>,
      where \<open>size\<close> is positive, so ZeroDivisionError cannot arise\<close>
  "py_truediv a b = binary64 (of_int a / of_int b)"

definition py_add :: "int \<Rightarrow> rat \<Rightarrow> rat" where
  \<comment> \<open>\<^verbatim>\<open>a + x\<close> for an integer \<open>a\<close> and a float \<open>x\<close>; the script adds to
      102, 126 and 234, which convert to binary64 exactly\<close>
  "py_add a x = binary64 (of_int a + x)"

definition py_int :: "rat \<Rightarrow> int" where
  \<comment> \<open>\<^verbatim>\<open>int(x)\<close> on a float: truncation toward zero\<close>
  "py_int x = (if 0 \<le> x then \<lfloor>x\<rfloor> else \<lceil>x\<rceil>)"

fun digits :: "nat \<Rightarrow> string" where
  "digits n = (if n < 10 then [''0123456789'' ! n]
               else digits (n div 10) @ [''0123456789'' ! (n mod 10)])"

declare digits.simps [simp del]

definition str :: "int \<Rightarrow> string" where
  \<comment> \<open>the decimal text an f-string substitutes for an integer\<close>
  "str i = (if i < 0 then CHR ''-'' # digits (nat (- i)) else digits (nat i))"


section \<open>The imaging library\<close>

text \<open>
  Pillow is an external collaborator. Its operations are modelled as far as the script uses
  them: an image is its mode, its size and its pixels; a colour given as a tuple of integers
  is clipped to 8 bits per channel when it becomes ink; drawing is clipped to the canvas.
\<close>

datatype error = ImportError | ValueError | OSError string

datatype image_mode = L | RGB | RGBA

type_synonym rgba = "int \<times> int \<times> int \<times> int"

record image =
  im_mode :: image_mode
  im_size :: "int \<times> int"
  im_pixels :: "int \<times> int \<Rightarrow> rgba option"

definition red :: "rgba \<Rightarrow> int" where
  "red c = (case c of (r, g, b, a) \<Rightarrow> r)"

definition green :: "rgba \<Rightarrow> int" where
  "green c = (case c of (r, g, b, a) \<Rightarrow> g)"

definition blue :: "rgba \<Rightarrow> int" where
  "blue c = (case c of (r, g, b, a) \<Rightarrow> b)"

definition alpha :: "rgba \<Rightarrow> int" where
  "alpha c = (case c of (r, g, b, a) \<Rightarrow> a)"

definition close_to :: "int \<Rightarrow> rgba \<Rightarrow> rgba \<Rightarrow> bool" where
  \<comment> \<open>every channel of \<open>c\<close> differs from that of \<open>d\<close> by at most \<open>tol\<close>\<close>
  "close_to tol c d =
     (\<bar>red c - red d\<bar> \<le> tol \<and> \<bar>green c - green d\<bar> \<le> tol
      \<and> \<bar>blue c - blue d\<bar> \<le> tol \<and> \<bar>alpha c - alpha d\<bar> \<le> tol)"

definition clip8 :: "int \<Rightarrow> int" where
  "clip8 v = (if v \<le> 0 then 0 else if 255 \<le> v then 255 else v)"

definition ink :: "rgba \<Rightarrow> rgba" where
  "ink c = (case c of (r, g, b, a) \<Rightarrow> (clip8 r, clip8 g, clip8 b, clip8 a))"

definition inside :: "int \<times> int \<Rightarrow> int \<times> int \<Rightarrow> bool" where
  "inside wh p = (case (wh, p) of ((w, h), (x, y)) \<Rightarrow> 0 \<le> x \<and> x < w \<and> 0 \<le> y \<and> y < h)"

definition Image_new :: "image_mode \<Rightarrow> int \<times> int \<Rightarrow> rgba \<Rightarrow> error + image" where
  \<comment> \<open>\<^verbatim>\<open>Image.new(mode, size, color)\<close>; a negative edge raises ValueError\<close>
  "Image_new m wh c =
     (if fst wh < 0 \<or> snd wh < 0 then Inl ValueError
      else Inr \<lparr>im_mode = m, im_size = wh,
                im_pixels = (\<lambda>p. if inside wh p then Some (ink c) else None)\<rparr>)"

definition draw_hline :: "image \<Rightarrow> int \<Rightarrow> int \<Rightarrow> int \<Rightarrow> rgba \<Rightarrow> image" where
  \<comment> \<open>\<^verbatim>\<open>draw.line([(x0, y), (x1, y)], fill=c)\<close>, a horizontal segment of the default
      width: every pixel from \<open>x0\<close> to \<open>x1\<close> inclusive on row \<open>y\<close> is set to the ink\<close>
  "draw_hline im x0 x1 y c =
     im\<lparr>im_pixels := (\<lambda>p. if inside (im_size im) p \<and> snd p = y
                                  \<and> min x0 x1 \<le> fst p \<and> fst p \<le> max x0 x1
                               then Some (ink c) else im_pixels im p)\<rparr>"

definition blend8 :: "int \<Rightarrow> int \<Rightarrow> int \<Rightarrow> int" where
  \<comment> \<open>the library's 8-bit blend of \<open>a\<close> toward \<open>b\<close> by coverage \<open>m\<close>:
      \<open>(a * (255 - m) + b * m) / 255\<close>, rounded, in integer arithmetic\<close>
  "blend8 m a b = (let t = a * (255 - m) + b * m + 128 in (t div 256 + t) div 256)"

definition blend :: "int \<Rightarrow> rgba \<Rightarrow> rgba \<Rightarrow> rgba" where
  "blend m dst src =
     (case (dst, src) of
        ((r, g, b, a), (r', g', b', a')) \<Rightarrow>
          (blend8 m r r', blend8 m g g', blend8 m b b', blend8 m a a'))"

record font =
  font_bbox :: "string \<Rightarrow> int \<times> int \<times> int \<times> int"
  font_mask :: "string \<Rightarrow> ((int \<times> int) \<times> int) list"

text \<open>
  A font is what it yields for a text: the bounding box (left, top, right, bottom) of the
  text set at the origin, and the rendered glyph bitmap as a list of pixel offsets from the
  drawing position, each with an 8-bit coverage.
\<close>

definition paste_pixel :: "image \<Rightarrow> int \<times> int \<Rightarrow> int \<Rightarrow> rgba \<Rightarrow> image" where
  "paste_pixel im p m c =
     (case im_pixels im p of
        None \<Rightarrow> im
      | Some dst \<Rightarrow> im\<lparr>im_pixels := (im_pixels im)(p \<mapsto> blend (clip8 m) dst c)\<rparr>)"

definition draw_bitmap :: "image \<Rightarrow> int \<times> int \<Rightarrow> ((int \<times> int) \<times> int) list \<Rightarrow> rgba \<Rightarrow> image" where
  "draw_bitmap im xy bitmap c =
     foldl (\<lambda>im (d, m). paste_pixel im (fst xy + fst d, snd xy + snd d) m c) im bitmap"

definition textbbox :: "int \<times> int \<Rightarrow> string \<Rightarrow> font \<Rightarrow> int \<times> int \<times> int \<times> int" where
  \<comment> \<open>\<^verbatim>\<open>draw.textbbox(xy, text, font=font)\<close>\<close>
  "textbbox xy text f =
     (case (xy, font_bbox f text) of
        ((x, y), (l, t, r, b)) \<Rightarrow> (l + x, t + y, r + x, b + y))"

definition draw_text :: "image \<Rightarrow> int \<times> int \<Rightarrow> string \<Rightarrow> rgba \<Rightarrow> font \<Rightarrow> image" where
  \<comment> \<open>\<^verbatim>\<open>draw.text(xy, text, fill=c, font=font)\<close>: the glyph bitmap is blended into the
      canvas with the ink \<open>c\<close>\<close>
  "draw_text im xy text c f = draw_bitmap im xy (font_mask f text) (ink c)"


section \<open>The process environment\<close>

datatype file_content = Text string | PNG image

record world =
  fs :: "string \<rightharpoonup> file_content"
  stdout :: "string list"

record env =
  pil_importable :: bool
  truetype :: "string \<Rightarrow> int \<Rightarrow> error + font"
  load_default :: font
  write_failure :: "string \<Rightarrow> error option"

text \<open>
  \<open>pil_importable\<close>: whether \<^verbatim>\<open>from PIL import Image, ImageDraw, ImageFont\<close> succeeds in
  this interpreter (the same statement, with the same outcome, at module level and inside
  \<open>main\<close>). \<open>truetype\<close>: \<^verbatim>\<open>ImageFont.truetype(path, size)\<close>, which fails or returns a
  font. \<open>load_default\<close>: the face embedded in the library. \<open>write_failure\<close>: the error
  with which opening a path for writing fails, if it does. A file's content is either the
  text written to it or the PNG encoding of an image.
\<close>

definition write_file :: "env \<Rightarrow> string \<Rightarrow> file_content \<Rightarrow> world \<Rightarrow> (error + unit) \<times> world" where
  \<comment> \<open>whether a path can be written is a fact of the environment, fixed for the run; the
      script writes each name once\<close>
  "write_file e name content w =
     (case write_failure e name of
        Some err \<Rightarrow> (Inl err, w)
      | None \<Rightarrow> (Inr (), w\<lparr>fs := (fs w)(name \<mapsto> content)\<rparr>))"

definition py_print :: "string \<Rightarrow> world \<Rightarrow> world" where
  "py_print s w = w\<lparr>stdout := stdout w @ [s]\<rparr>"


section \<open>create\_icons.py\<close>

definition gradient_color :: "int \<Rightarrow> int \<Rightarrow> rgba" where
  \<comment> \<open>lines 17--22: the colour of row \<open>i\<close>\<close>
  "gradient_color i sz =
     (py_int (py_add 102 (py_truediv ((118 - 102) * i) sz)),
      py_int (py_add 126 (py_truediv ((75 - 126) * i) sz)),
      py_int (py_add 234 (py_truediv ((162 - 234) * i) sz)),
      255)"

definition gradient_background :: "image \<Rightarrow> int \<Rightarrow> image" where
  \<comment> \<open>lines 16--23: \<^verbatim>\<open>for i in range(size): draw.line([(0, i), (size, i)], fill=color)\<close>\<close>
  "gradient_background img sz =
     foldl (\<lambda>im i. draw_hline im 0 sz i (gradient_color i sz)) img [0 .. sz - 1]"

definition choose_font :: "env \<Rightarrow> int \<Rightarrow> font" where
  \<comment> \<open>lines 26--32: the bare \<^verbatim>\<open>except:\<close> catches every failure of the load\<close>
  "choose_font e sz =
     (let font_size = sz div 2
      in case truetype e ''/usr/share/fonts/truetype/dejavu/DejaVuSans-Bold.ttf'' font_size of
           Inr f \<Rightarrow> f
         | Inl _ \<Rightarrow> load_default e)"

definition text_position :: "int \<Rightarrow> font \<Rightarrow> int \<times> int" where
  \<comment> \<open>lines 35--41\<close>
  "text_position sz f =
     (let text = ''PA'';
          bbox = textbbox (0, 0) text f;
          text_width = fst (snd (snd bbox)) - fst bbox;
          text_height = snd (snd (snd bbox)) - fst (snd bbox);
          x = (sz - text_width) div 2;
          y = (sz - text_height) div 2
      in (x, y))"

definition icon_image :: "env \<Rightarrow> int \<Rightarrow> error + image" where
  \<comment> \<open>lines 12--43: the image that \<open>create_icon\<close> holds when it reaches \<^verbatim>\<open>img.save\<close>\<close>
  "icon_image e sz =
     (case Image_new RGBA (sz, sz) (0, 0, 0, 0) of
        Inl err \<Rightarrow> Inl err
      | Inr img \<Rightarrow>
          (let img = gradient_background img sz;
               f = choose_font e sz
           in Inr (draw_text img (text_position sz f) ''PA'' (255, 255, 255, 255) f)))"

definition create_icon :: "env \<Rightarrow> int \<Rightarrow> string \<Rightarrow> world \<Rightarrow> (error + unit) \<times> world" where
  \<comment> \<open>for sizes of at least 1, the only ones the script uses (16, 48, 128); an image with
      an empty edge, which the library refuses to save, is outside this model\<close>
  "create_icon e sz filename w =
     (case icon_image e sz of
        Inl err \<Rightarrow> (Inl err, w)
      | Inr img \<Rightarrow>
          (case write_file e filename (PNG img) w of
             (Inl err, w') \<Rightarrow> (Inl err, w')
           | (Inr _, w') \<Rightarrow>
               (Inr (), py_print (''Created '' @ filename @ '' ('' @ str sz @ ''x'' @ str sz @ '')'') w')))"

fun write_placeholders :: "env \<Rightarrow> (int \<times> string) list \<Rightarrow> world \<Rightarrow> (error + unit) \<times> world" where
  "write_placeholders e [] w = (Inr (), w)"
| "write_placeholders e ((sz, filename) # rest) w =
     (case write_file e filename (Text (''Placeholder icon '' @ str sz @ ''x'' @ str sz)) w of
        (Inl err, w') \<Rightarrow> (Inl err, w')
      | (Inr _, w') \<Rightarrow> write_placeholders e rest w')"

definition main :: "env \<Rightarrow> world \<Rightarrow> (error + unit) \<times> world" where
  "main e w =
     (if \<not> pil_importable e then
        write_placeholders e [(16, ''icon16.png''), (48, ''icon48.png''), (128, ''icon128.png'')]
          (py_print ''PIL/Pillow not available. Creating simple text files as placeholders.'' w)
      else
        (case create_icon e 16 ''icon16.png'' w of
           (Inl err, w1) \<Rightarrow> (Inl err, w1)
         | (Inr _, w1) \<Rightarrow>
             (case create_icon e 48 ''icon48.png'' w1 of
                (Inl err, w2) \<Rightarrow> (Inl err, w2)
              | (Inr _, w2) \<Rightarrow> create_icon e 128 ''icon128.png'' w2)))"

definition script :: "env \<Rightarrow> world \<Rightarrow> (error + unit) \<times> world" where
  \<comment> \<open>running the file: the import of line 7 is executed first, unguarded; then
      line 67 calls \<open>main\<close>\<close>
  "script e w = (if \<not> pil_importable e then (Inl ImportError, w) else main e w)"


definition icon_specs :: "(int \<times> string) list" where
  \<comment> \<open>the three sizes and names that \<open>main\<close> spells out, in its order\<close>
  "icon_specs = [(16, ''icon16.png''), (48, ''icon48.png''), (128, ''icon128.png'')]"


section \<open>A sample environment\<close>

text \<open>
  A concrete interpreter state on which the theorems below are instantiated: Pillow is
  installed, the bold face loads at every positive size, the built-in face measures the
  text \<open>PA\<close> as 12 by 11 pixels, and every path is writable.
\<close>

definition sample_face :: "int \<Rightarrow> font" where
  "sample_face n =
     \<lparr>font_bbox = (\<lambda>t. (0, n div 4, int (length t) * (3 * n div 4), n)),
      font_mask = (\<lambda>t. [((0, n div 4), 255), ((1, n div 4), 128), ((0, n - 1), 64)])\<rparr>"

definition sample_default_face :: font where
  "sample_default_face =
     \<lparr>font_bbox = (\<lambda>t. (0, 0, 6 * int (length t), 11)),
      font_mask = (\<lambda>t. [((1, 2), 255), ((1, 3), 255), ((2, 2), 255)])\<rparr>"

definition sample_env :: env where
  "sample_env =
     \<lparr>pil_importable = True,
      truetype = (\<lambda>path n.
        if path = ''/usr/share/fonts/truetype/dejavu/DejaVuSans-Bold.ttf'' \<and> 0 < n
        then Inr (sample_face n) else Inl (OSError ''cannot open resource'')),
      load_default = sample_default_face,
      write_failure = (\<lambda>name. None)\<rparr>"

definition sample_world :: world where
  "sample_world = \<lparr>fs = Map.empty, stdout = []\<rparr>"

definition sample_env_without_pil :: env where
  \<comment> \<open>the same interpreter with Pillow not installed\<close>
  "sample_env_without_pil = sample_env\<lparr>pil_importable := False\<rparr>"

definition sample_env_denied :: env where
  \<comment> \<open>the same interpreter in a directory where \<open>icon48.png\<close> cannot be written\<close>
  "sample_env_denied =
     sample_env\<lparr>write_failure :=
       (\<lambda>name. if name = ''icon48.png'' then Some (OSError ''Permission denied'') else None)\<rparr>"

definition opaque :: "image \<Rightarrow> bool" where
  "opaque im = (\<forall>p c. im_pixels im p = Some c \<longrightarrow> alpha c = 255)"


section \<open>Rounding to binary64 is monotone and exact on short dyadic numbers\<close>

lemma ilog2_ge1:
  assumes "1 \<le> x"
  shows "2 powi (ilog2 x) \<le> x \<and> x < 2 powi (ilog2 x + 1)"
proof -
  let ?n = "\<lfloor>x\<rfloor>"
  have n: "0 < ?n" using assms by simp
  have b: "1 \<le> bitlen ?n" using n by (simp add: bitlen_alt_def)
  have e: "ilog2 x = bitlen ?n - 1" using assms by (simp add: ilog2_def)
  from bitlen_bounds [OF n]
  have lo: "2 ^ nat (bitlen ?n - 1) \<le> ?n" and hi: "?n < 2 ^ nat (bitlen ?n)" by auto
  have "(2::rat) powi (bitlen ?n - 1) = of_int (2 ^ nat (bitlen ?n - 1))"
    using b by (simp add: power_int_nonneg_exp)
  also have "\<dots> \<le> of_int ?n" using lo by (simp only: of_int_le_iff)
  also have "\<dots> \<le> x" by simp
  finally have 1: "2 powi (ilog2 x) \<le> x" by (simp add: e)
  have "?n + 1 \<le> 2 ^ nat (bitlen ?n)" using hi by simp
  then have "(of_int (?n + 1) :: rat) \<le> of_int (2 ^ nat (bitlen ?n))" by (simp only: of_int_le_iff)
  moreover have "x < of_int (?n + 1)" by linarith
  moreover have "(2::rat) powi (bitlen ?n) = of_int (2 ^ nat (bitlen ?n))"
    using b by (simp add: power_int_nonneg_exp)
  ultimately have 2: "x < 2 powi (ilog2 x + 1)" by (simp add: e)
  from 1 2 show ?thesis ..
qed

lemma ilog2_lt1:
  assumes "0 < x" "x < 1"
  shows "2 powi (ilog2 x) \<le> x \<and> x < 2 powi (ilog2 x + 1)"
proof -
  let ?y = "1 / x"
  let ?m = "\<lceil>?y\<rceil> - 1"
  have y: "1 < ?y" using assms by simp
  have m: "0 < ?m" using y by linarith
  have b: "1 \<le> bitlen ?m" using m by (simp add: bitlen_alt_def)
  have e: "ilog2 x = - bitlen ?m" using assms by (simp add: ilog2_def)
  from bitlen_bounds [OF m]
  have lo: "2 ^ nat (bitlen ?m - 1) \<le> ?m" and hi: "?m < 2 ^ nat (bitlen ?m)" by auto
  have "?m + 1 \<le> 2 ^ nat (bitlen ?m)" using hi by simp
  then have "(of_int (?m + 1) :: rat) \<le> of_int (2 ^ nat (bitlen ?m))" by (simp only: of_int_le_iff)
  moreover have "?y \<le> of_int (?m + 1)" by linarith
  ultimately have "?y \<le> of_int (2 ^ nat (bitlen ?m))" by (rule order_trans [rotated])
  then have "?y \<le> 2 ^ nat (bitlen ?m)" by simp
  then have "1 / 2 ^ nat (bitlen ?m) \<le> x"
    using assms by (simp add: field_simps)
  moreover have "(2::rat) powi (- bitlen ?m) = 1 / 2 ^ nat (bitlen ?m)"
    using b by (simp add: power_int_minus_divide power_int_nonneg_exp)
  ultimately have 1: "2 powi (ilog2 x) \<le> x" by (simp add: e)
  have "(of_int (2 ^ nat (bitlen ?m - 1)) :: rat) \<le> of_int ?m" using lo by (simp only: of_int_le_iff)
  moreover have "of_int ?m < ?y" by linarith
  ultimately have "of_int (2 ^ nat (bitlen ?m - 1)) < ?y" by (rule le_less_trans)
  then have "2 ^ nat (bitlen ?m - 1) < ?y" by simp
  then have "x < 1 / 2 ^ nat (bitlen ?m - 1)"
    using assms by (simp add: field_simps)
  moreover have "(2::rat) powi (- bitlen ?m + 1) = 1 / 2 ^ nat (bitlen ?m - 1)"
  proof -
    have "- bitlen ?m + 1 = - (bitlen ?m - 1)" by simp
    then show ?thesis using b by (simp only: power_int_minus_divide) (simp add: power_int_nonneg_exp)
  qed
  ultimately have 2: "x < 2 powi (ilog2 x + 1)" by (simp add: e)
  from 1 2 show ?thesis ..
qed

lemma ilog2_bounds:
  "0 < x \<Longrightarrow> 2 powi (ilog2 x) \<le> x \<and> x < 2 powi (ilog2 x + 1)"
  using ilog2_ge1 [of x] ilog2_lt1 [of x] by (cases "1 \<le> x") auto

lemma pow2_less_cancel:
  assumes "(2::rat) powi a < 2 powi b"
  shows "a < b"
proof (rule ccontr)
  assume "\<not> a < b"
  then have "(2::rat) powi b \<le> 2 powi a" by (intro power_int_increasing) auto
  with assms show False by simp
qed

lemma ilog2_mono:
  assumes "0 < x" "x \<le> y"
  shows "ilog2 x \<le> ilog2 y"
proof -
  have "(2::rat) powi (ilog2 x) \<le> x" using ilog2_bounds [of x] assms by simp
  also have "x \<le> y" by fact
  also have "y < 2 powi (ilog2 y + 1)" using ilog2_bounds [of y] assms by simp
  finally have "ilog2 x < ilog2 y + 1"
    by (rule pow2_less_cancel)
  then show ?thesis by simp
qed

lemma round_half_even_of_int: "round_half_even (of_int n) = n"
  by (simp add: round_half_even_def)

lemma round_half_even_range:
  "\<lfloor>x\<rfloor> \<le> round_half_even x \<and> round_half_even x \<le> \<lfloor>x\<rfloor> + 1"
  by (simp add: round_half_even_def Let_def)

lemma round_half_even_mono:
  assumes "x \<le> y"
  shows "round_half_even x \<le> round_half_even y"
proof (cases "\<lfloor>x\<rfloor> = \<lfloor>y\<rfloor>")
  case True
  with assms show ?thesis
    by (auto simp add: round_half_even_def Let_def)
next
  case False
  with assms have "\<lfloor>x\<rfloor> + 1 \<le> \<lfloor>y\<rfloor>"
    using floor_mono [of x y] by linarith
  with round_half_even_range [of x] round_half_even_range [of y]
  show ?thesis by linarith
qed

lemma round_half_even_minus: "round_half_even (- x) = - round_half_even x"
proof (cases "x = of_int \<lfloor>x\<rfloor>")
  case True
  then obtain n where "x = of_int n" ..
  then have "- x = of_int (- n)" by simp
  then show ?thesis using \<open>x = of_int n\<close>
    by (simp only: round_half_even_of_int)
next
  case False
  then have lt: "of_int \<lfloor>x\<rfloor> < x" using of_int_floor_le [of x] by linarith
  have "\<lfloor>- x\<rfloor> = - \<lfloor>x\<rfloor> - 1"
  proof (rule floor_unique)
    show "of_int (- \<lfloor>x\<rfloor> - 1) \<le> - x" using floor_correct [of x] by simp
    show "- x < of_int (- \<lfloor>x\<rfloor> - 1) + 1" using lt by simp
  qed
  then show ?thesis
    by (auto simp add: round_half_even_def Let_def)
qed

lemma binary64_minus: "binary64 (- x) = - binary64 x"
  by (simp add: binary64_def Let_def round_half_even_minus)

lemma pow2_diff_nat:
  assumes "t \<le> k"
  shows "(2::rat) powi k / 2 powi t = of_int (2 ^ nat (k - t))"
proof -
  have "(2::rat) powi k / 2 powi t = 2 powi (k - t)"
    by (simp add: power_int_diff)
  also have "\<dots> = 2 ^ nat (k - t)" using assms by (simp add: power_int_nonneg_exp)
  finally show ?thesis by simp
qed

lemma binary64_pos_eq:
  assumes "0 < x"
  shows "binary64 x = of_int (round_half_even (x / 2 powi (max (ilog2 x) (- 1022) - 52)))
           * 2 powi (max (ilog2 x) (- 1022) - 52)"
  using assms by (simp add: binary64_def Let_def)

lemma binary64_nonneg:
  assumes "0 < x"
  shows "0 \<le> binary64 x"
proof -
  let ?q = "(2::rat) powi (max (ilog2 x) (- 1022) - 52)"
  have q: "0 < ?q" by simp
  have "0 \<le> x / ?q" using assms q by simp
  then have "round_half_even 0 \<le> round_half_even (x / ?q)" by (rule round_half_even_mono)
  then have "0 \<le> round_half_even (x / ?q)" using round_half_even_of_int [of 0] by simp
  then show ?thesis using q by (simp add: binary64_pos_eq [OF assms])
qed

lemma binary64_upper:
  assumes "0 < x"
  shows "binary64 x \<le> 2 powi (max (ilog2 x) (- 1022) + 1)"
proof -
  let ?b = "max (ilog2 x) (- 1022)"
  let ?q = "(2::rat) powi (?b - 52)"
  have q: "0 < ?q" by simp
  have "x < 2 powi (ilog2 x + 1)" using ilog2_bounds [OF assms] by simp
  also have "\<dots> \<le> 2 powi (?b + 1)" by (intro power_int_increasing) auto
  finally have "x / ?q \<le> 2 powi (?b + 1) / ?q" using q by (simp add: divide_right_mono)
  also have "\<dots> = of_int (2 ^ nat 53)" using pow2_diff_nat [of "?b - 52" "?b + 1"] by simp
  finally have "round_half_even (x / ?q) \<le> round_half_even (of_int (2 ^ nat 53))"
    by (rule round_half_even_mono)
  then have "round_half_even (x / ?q) \<le> 2 ^ nat 53" by (simp only: round_half_even_of_int)
  then have "(of_int (round_half_even (x / ?q)) :: rat) \<le> of_int (2 ^ nat 53)"
    by (simp only: of_int_le_iff)
  then have "of_int (round_half_even (x / ?q)) * ?q \<le> of_int (2 ^ nat 53) * ?q"
    using q by (simp only: mult_le_cancel_right_pos)
  also have "of_int (2 ^ nat 53) * ?q = 2 powi (?b + 1)"
    using pow2_diff_nat [of "?b - 52" "?b + 1"] q by (simp add: field_simps)
  finally show ?thesis by (simp only: binary64_pos_eq [OF assms])
qed

lemma binary64_lower:
  assumes "0 < x" "- 1022 \<le> ilog2 x"
  shows "2 powi (ilog2 x) \<le> binary64 x"
proof -
  let ?b = "max (ilog2 x) (- 1022)"
  let ?q = "(2::rat) powi (?b - 52)"
  have b: "?b = ilog2 x" using assms by simp
  have q: "0 < ?q" by simp
  have "2 powi ?b \<le> x" using ilog2_bounds [OF assms(1)] b by simp
  then have "2 powi ?b / ?q \<le> x / ?q" using q by (simp add: divide_right_mono)
  moreover have "2 powi ?b / ?q = of_int (2 ^ nat 52)"
    using pow2_diff_nat [of "?b - 52" "?b"] by simp
  ultimately have "of_int (2 ^ nat 52) \<le> x / ?q" by simp
  then have "round_half_even (of_int (2 ^ nat 52)) \<le> round_half_even (x / ?q)"
    by (rule round_half_even_mono)
  then have "2 ^ nat 52 \<le> round_half_even (x / ?q)" by (simp only: round_half_even_of_int)
  then have "(of_int (2 ^ nat 52) :: rat) \<le> of_int (round_half_even (x / ?q))"
    by (simp only: of_int_le_iff)
  then have "of_int (2 ^ nat 52) * ?q \<le> of_int (round_half_even (x / ?q)) * ?q"
    using q by (simp only: mult_le_cancel_right_pos)
  moreover have "of_int (2 ^ nat 52) * ?q = 2 powi ?b"
    using pow2_diff_nat [of "?b - 52" "?b"] q by (simp add: field_simps)
  ultimately have "2 powi ?b \<le> binary64 x" by (simp only: binary64_pos_eq [OF assms(1)])
  then show ?thesis using b by simp
qed

lemma binary64_mono_pos:
  assumes "0 < x" "x \<le> y"
  shows "binary64 x \<le> binary64 y"
proof -
  let ?bx = "max (ilog2 x) (- 1022)"
  let ?by = "max (ilog2 y) (- 1022)"
  have y: "0 < y" using assms by simp
  have le: "?bx \<le> ?by" using ilog2_mono [OF assms] by simp
  show ?thesis
  proof (cases "?bx = ?by")
    case True
    let ?q = "(2::rat) powi (?bx - 52)"
    have q: "0 < ?q" by simp
    have "x / ?q \<le> y / ?q" using assms q by (simp add: divide_right_mono)
    then have "round_half_even (x / ?q) \<le> round_half_even (y / ?q)"
      by (rule round_half_even_mono)
    then have "(of_int (round_half_even (x / ?q)) :: rat) \<le> of_int (round_half_even (y / ?q))"
      by (simp only: of_int_le_iff)
    then have "of_int (round_half_even (x / ?q)) * ?q \<le> of_int (round_half_even (y / ?q)) * ?q"
      using q by (simp only: mult_le_cancel_right_pos)
    then show ?thesis
      using True by (simp only: binary64_pos_eq [OF assms(1)] binary64_pos_eq [OF y])
  next
    case False
    with le have lt: "?bx + 1 \<le> ?by" by simp
    then have ey: "?by = ilog2 y" "- 1022 \<le> ilog2 y" by auto
    have "binary64 x \<le> 2 powi (?bx + 1)" by (rule binary64_upper [OF assms(1)])
    also have "\<dots> \<le> 2 powi ?by" using lt by (intro power_int_increasing) auto
    also have "\<dots> = 2 powi (ilog2 y)" using ey by simp
    also have "\<dots> \<le> binary64 y" by (rule binary64_lower [OF y ey(2)])
    finally show ?thesis .
  qed
qed

lemma binary64_zero: "binary64 0 = 0"
  by (simp add: binary64_def)

lemma binary64_mono:
  assumes "x \<le> y"
  shows "binary64 x \<le> binary64 y"
proof -
  consider "0 < x" | "x = 0" "y = 0" | "x = 0" "0 < y" | "x < 0" "0 < y" | "x < 0" "y = 0" | "x < 0" "y < 0"
    using assms by linarith
  then show ?thesis
  proof cases
    case 1
    then show ?thesis using assms by (rule binary64_mono_pos)
  next
    case 2
    then show ?thesis by simp
  next
    case 3
    then show ?thesis using binary64_nonneg [of y] by (simp add: binary64_zero)
  next
    case 4
    then have "0 \<le> binary64 (- x)" "0 \<le> binary64 y" by (simp_all add: binary64_nonneg)
    then show ?thesis by (simp add: binary64_minus)
  next
    case 5
    then have "0 \<le> binary64 (- x)" by (simp add: binary64_nonneg)
    then show ?thesis using 5 by (simp add: binary64_minus binary64_zero)
  next
    case 6
    then have "binary64 (- y) \<le> binary64 (- x)" using assms by (intro binary64_mono_pos) auto
    then show ?thesis by (simp add: binary64_minus)
  qed
qed

lemma binary64_exact:
  assumes m: "\<bar>m\<bar> < 2 ^ 53" and k: "- 1074 \<le> k"
  shows "binary64 (of_int m * 2 powi k) = of_int m * 2 powi k"
proof (cases "m = 0")
  case True
  then show ?thesis by (simp add: binary64_zero)
next
  case False
  let ?x = "of_int m * (2::rat) powi k"
  let ?t = "max (ilog2 \<bar>?x\<bar>) (- 1022) - 52"
  have ax: "\<bar>?x\<bar> = of_int \<bar>m\<bar> * 2 powi k" by (simp add: abs_mult)
  have pos: "0 < \<bar>?x\<bar>" using False by simp
  have "(of_int \<bar>m\<bar> :: rat) < of_int (2 ^ 53)" using m by (simp only: of_int_less_iff)
  then have "of_int \<bar>m\<bar> * (2::rat) powi k < of_int (2 ^ 53) * 2 powi k"
    by (simp only: mult_less_cancel_right_pos zero_less_power_int zero_less_numeral)
  also have "of_int (2 ^ 53) * (2::rat) powi k = 2 powi (53 + k)"
    by (simp add: power_int_add)
  finally have "\<bar>?x\<bar> < 2 powi (53 + k)" by (simp only: ax)
  moreover have "2 powi (ilog2 \<bar>?x\<bar>) \<le> \<bar>?x\<bar>" using ilog2_bounds [OF pos] by simp
  ultimately have "(2::rat) powi (ilog2 \<bar>?x\<bar>) < 2 powi (53 + k)" by linarith
  then have "ilog2 \<bar>?x\<bar> < 53 + k" by (rule pow2_less_cancel)
  then have t: "?t \<le> k" using k by simp
  have "?x / 2 powi ?t = of_int m * (2 powi k / 2 powi ?t)" by simp
  also have "\<dots> = of_int (m * 2 ^ nat (k - ?t))"
    by (simp only: pow2_diff_nat [OF t] of_int_mult)
  finally have "round_half_even (?x / 2 powi ?t) = m * 2 ^ nat (k - ?t)"
    by (simp only: round_half_even_of_int)
  then have "binary64 ?x = of_int (m * 2 ^ nat (k - ?t)) * 2 powi ?t"
    using False by (simp add: binary64_def Let_def)
  also have "\<dots> = of_int m * (of_int (2 ^ nat (k - ?t)) * 2 powi ?t)"
    by (simp only: of_int_mult mult.assoc)
  also have "of_int (2 ^ nat (k - ?t)) * (2::rat) powi ?t = 2 powi k"
    by (simp only: pow2_diff_nat [OF t, symmetric]) simp
  finally show ?thesis .
qed

lemma binary64_of_int: "\<bar>m\<bar> < 2 ^ 53 \<Longrightarrow> binary64 (of_int m) = of_int m"
  using binary64_exact [of m 0] by simp

lemma py_int_mono: "x \<le> y \<Longrightarrow> py_int x \<le> py_int y"
  unfolding py_int_def
  by (auto intro: floor_mono ceiling_mono) (meson ceiling_le_zero zero_le_floor order_trans less_imp_le not_le)+

lemma py_int_of_int: "py_int (of_int n) = n"
  by (simp add: py_int_def)

lemma py_truediv_mono: "0 < b \<Longrightarrow> a \<le> a' \<Longrightarrow> py_truediv a b \<le> py_truediv a' b"
  unfolding py_truediv_def by (intro binary64_mono divide_right_mono) simp_all

lemma py_add_mono: "x \<le> y \<Longrightarrow> py_add a x \<le> py_add a y"
  unfolding py_add_def by (intro binary64_mono) simp

lemma channel_mono_num:
  "0 < sz \<Longrightarrow> a \<le> b \<Longrightarrow> py_int (py_add s (py_truediv a sz)) \<le> py_int (py_add s (py_truediv b sz))"
  by (intro py_int_mono py_add_mono py_truediv_mono)

lemma channel_at_0: "\<bar>s\<bar> < 2 ^ 53 \<Longrightarrow> py_int (py_add s (py_truediv 0 sz)) = s"
  by (simp add: py_truediv_def py_add_def binary64_zero binary64_of_int py_int_of_int)

lemma channel_at_sz:
  assumes "0 < sz" "\<bar>d\<bar> < 2 ^ 53" "\<bar>s + d\<bar> < 2 ^ 53"
  shows "py_int (py_add s (py_truediv (d * sz) sz)) = s + d"
proof -
  have "py_truediv (d * sz) sz = of_int d"
    using assms by (simp add: py_truediv_def binary64_of_int)
  then have "py_add s (py_truediv (d * sz) sz) = binary64 (of_int (s + d))"
    by (simp add: py_add_def)
  also have "\<dots> = of_int (s + d)" using assms by (simp only: binary64_of_int)
  finally show ?thesis by (simp only: py_int_of_int)
qed

lemma floor_rat_numeral:
  "\<lfloor>(numeral a :: rat) / numeral b\<rfloor> = numeral a div numeral b"
  using floor_divide_of_int_eq [of "numeral a" "numeral b", where ?'a = rat] by simp



section \<open>The gradient\<close>

lemma red_mono:
  "0 < sz \<Longrightarrow> i \<le> j \<Longrightarrow> red (gradient_color i sz) \<le> red (gradient_color j sz)"
  unfolding gradient_color_def red_def prod.case
  by (rule channel_mono_num) simp_all

lemma green_antimono:
  "0 < sz \<Longrightarrow> i \<le> j \<Longrightarrow> green (gradient_color j sz) \<le> green (gradient_color i sz)"
  unfolding gradient_color_def green_def prod.case
  by (rule channel_mono_num) simp_all

lemma blue_antimono:
  "0 < sz \<Longrightarrow> i \<le> j \<Longrightarrow> blue (gradient_color j sz) \<le> blue (gradient_color i sz)"
  unfolding gradient_color_def blue_def prod.case
  by (rule channel_mono_num) simp_all

lemma gradient_color_0: "gradient_color 0 sz = (102, 126, 234, 255)"
  unfolding gradient_color_def mult_zero_right
  using channel_at_0 [of 102 sz] channel_at_0 [of 126 sz] channel_at_0 [of 234 sz]
  by simp

lemma gradient_color_sz: "0 < sz \<Longrightarrow> gradient_color sz sz = (118, 75, 162, 255)"
  unfolding gradient_color_def
  using channel_at_sz [of sz "118 - 102" 102] channel_at_sz [of sz "75 - 126" 126]
    channel_at_sz [of sz "162 - 234" 234]
  by simp

lemma alpha_gradient_color: "alpha (gradient_color i sz) = 255"
  by (simp add: gradient_color_def alpha_def)

lemma gradient_color_bounds:
  assumes "0 < sz" "0 \<le> i" "i \<le> sz"
  shows "102 \<le> red (gradient_color i sz)" "red (gradient_color i sz) \<le> 118"
    "75 \<le> green (gradient_color i sz)" "green (gradient_color i sz) \<le> 126"
    "162 \<le> blue (gradient_color i sz)" "blue (gradient_color i sz) \<le> 234"
  using red_mono [OF assms(1,2)] red_mono [OF assms(1,3)]
    green_antimono [OF assms(1,2)] green_antimono [OF assms(1,3)]
    blue_antimono [OF assms(1,2)] blue_antimono [OF assms(1,3)]
  by (simp_all add: gradient_color_0 gradient_color_sz [OF assms(1)] red_def green_def blue_def)

text \<open>
  Claim C10. For every size of at least 1, the colour of a row is monotone in the row
  index over \<open>[0, size)\<close>: red does not decrease, green and blue do not increase, and
  every channel stays between its start value (102, 126, 234) and its end value
  (118, 75, 162).
\<close>

theorem gradient_monotone_bounded:
  assumes "1 \<le> sz" "0 \<le> i" "i \<le> j" "j < sz"
  shows "red (gradient_color i sz) \<le> red (gradient_color j sz)
       \<and> green (gradient_color j sz) \<le> green (gradient_color i sz)
       \<and> blue (gradient_color j sz) \<le> blue (gradient_color i sz)
       \<and> 102 \<le> red (gradient_color i sz) \<and> red (gradient_color j sz) \<le> 118
       \<and> 75 \<le> green (gradient_color j sz) \<and> green (gradient_color i sz) \<le> 126
       \<and> 162 \<le> blue (gradient_color j sz) \<and> blue (gradient_color i sz) \<le> 234"
proof -
  have sz: "0 < sz" and j: "0 \<le> j" "j \<le> sz" and i: "i \<le> sz" using assms by simp_all
  show ?thesis
    using red_mono [OF sz assms(3)] green_antimono [OF sz assms(3)] blue_antimono [OF sz assms(3)]
      gradient_color_bounds [OF sz assms(2) i] gradient_color_bounds [OF sz j]
    by simp
qed

theorem gradient_monotone_bounded_witness:
  "(1::int) \<le> 16 \<and> (0::int) \<le> 3 \<and> (3::int) \<le> 15 \<and> (15::int) < 16
   \<and> red (gradient_color 3 16) \<le> red (gradient_color 15 16)
   \<and> green (gradient_color 15 16) \<le> green (gradient_color 3 16)
   \<and> blue (gradient_color 15 16) \<le> blue (gradient_color 3 16)
   \<and> 102 \<le> red (gradient_color 3 16) \<and> red (gradient_color 15 16) \<le> 118
   \<and> 75 \<le> green (gradient_color 15 16) \<and> green (gradient_color 3 16) \<le> 126
   \<and> 162 \<le> blue (gradient_color 15 16) \<and> blue (gradient_color 3 16) \<le> 234"
  using gradient_monotone_bounded [of 16 3 15] by simp

lemma channel_lower:
  assumes "lo \<le> of_int a / of_int sz" "binary64 lo = lo" "binary64 (of_int s + lo) = of_int s + lo"
  shows "py_int (of_int s + lo) \<le> py_int (py_add s (py_truediv a sz))"
proof -
  have "binary64 lo \<le> py_truediv a sz"
    unfolding py_truediv_def using assms(1) by (rule binary64_mono)
  then have "of_int s + lo \<le> of_int s + py_truediv a sz" using assms(2) by simp
  then have "binary64 (of_int s + lo) \<le> py_add s (py_truediv a sz)"
    unfolding py_add_def by (rule binary64_mono)
  then show ?thesis using assms(3) by (simp add: py_int_mono)
qed

lemma channel_upper:
  assumes "of_int a / of_int sz \<le> hi" "binary64 hi = hi" "binary64 (of_int s + hi) = of_int s + hi"
  shows "py_int (py_add s (py_truediv a sz)) \<le> py_int (of_int s + hi)"
proof -
  have "py_truediv a sz \<le> binary64 hi"
    unfolding py_truediv_def using assms(1) by (rule binary64_mono)
  then have "of_int s + py_truediv a sz \<le> of_int s + hi" using assms(2) by simp
  then have "py_add s (py_truediv a sz) \<le> binary64 (of_int s + hi)"
    unfolding py_add_def by (rule binary64_mono)
  then show ?thesis using assms(3) by (simp add: py_int_mono)
qed

lemma last_row_red:
  assumes "37 \<le> n"
  shows "117 \<le> red (gradient_color (n - 1) n)"
proof -
  have 1: "binary64 (31 / 2) = 31 / 2" "binary64 (of_int 102 + 31 / 2) = of_int 102 + 31 / 2"
    using binary64_exact [of 31 "- 1"] binary64_exact [of 235 "- 1"] by simp_all
  have 2: "31 / 2 \<le> (of_int ((118 - 102) * (n - 1)) :: rat) / of_int n"
    using assms by (simp add: field_simps)
  have "py_int (of_int 102 + 31 / 2) = 117" by (simp add: py_int_def floor_rat_numeral)
  then show ?thesis
    using channel_lower [OF 2 1] by (simp add: gradient_color_def red_def)
qed

lemma last_row_green:
  assumes "37 \<le> n"
  shows "green (gradient_color (n - 1) n) \<le> 76"
proof -
  have 1: "binary64 (- (99 / 2)) = - (99 / 2)"
    "binary64 (of_int 126 + - (99 / 2)) = of_int 126 + - (99 / 2)"
    using binary64_exact [of "- 99" "- 1"] binary64_exact [of 153 "- 1"] by simp_all
  have 2: "(of_int ((75 - 126) * (n - 1)) :: rat) / of_int n \<le> - (99 / 2)"
    using assms by (simp add: field_simps)
  have "py_int (of_int 126 + - (99 / 2)) = 76" by (simp add: py_int_def floor_rat_numeral)
  then show ?thesis
    using channel_upper [OF 2 1] by (simp add: gradient_color_def green_def)
qed

lemma last_row_blue:
  assumes "37 \<le> n"
  shows "blue (gradient_color (n - 1) n) \<le> 163"
proof -
  have 1: "binary64 (- (2241 / 32)) = - (2241 / 32)"
    "binary64 (of_int 234 + - (2241 / 32)) = of_int 234 + - (2241 / 32)"
    using binary64_exact [of "- 2241" "- 5"] binary64_exact [of 5247 "- 5"] by simp_all
  have 2: "(of_int ((162 - 234) * (n - 1)) :: rat) / of_int n \<le> - (2241 / 32)"
    using assms by (simp add: field_simps)
  have "py_int (of_int 234 + - (2241 / 32)) = 163" by (simp add: py_int_def floor_rat_numeral)
  then show ?thesis
    using channel_upper [OF 2 1] by (simp add: gradient_color_def blue_def)
qed

lemma gradient_color_15_16: "gradient_color 15 16 = (117, 78, 166, 255)"
proof -
  have 1: "binary64 15 = 15" "binary64 117 = 117"
    using binary64_of_int [of 15] binary64_of_int [of 117] by simp_all
  have 2: "binary64 (- (765 / 16)) = - (765 / 16)" "binary64 (1251 / 16) = 1251 / 16"
    using binary64_exact [of "- 765" "- 4"]  binary64_exact [of "1251" "- 4"] by simp_all
  have 3: "binary64 (- (135 / 2)) = - (135 / 2)" "binary64 (333 / 2) = 333 / 2"
    using binary64_exact [of "- 135" "- 1"]  binary64_exact [of "333" "- 1"] by simp_all
  show ?thesis
    by (simp add: gradient_color_def py_truediv_def py_add_def py_int_def 1 2 3 floor_rat_numeral)
qed

lemma blue_35_36: "blue (gradient_color 35 36) = 164"
proof -
  have 1: "binary64 (- 70) = - 70" "binary64 164 = 164"
    using binary64_of_int [of "- 70"] binary64_of_int [of 164] by simp_all
  show ?thesis
    by (simp add: gradient_color_def blue_def py_truediv_def py_add_def py_int_def 1)
qed

text \<open>
  Claim C2, as stated, fails at the smallest icon the script draws: the last row of the
  16-pixel icon is (117, 78, 166, 255), three and four steps away from the end colour in
  green and blue. The loop divides by \<open>size\<close>, so row \<open>size - 1\<close> stops one step short
  of the end colour, and a step is up to \<open>72 / size\<close> wide.
\<close>

theorem last_row_16_counterexample:
  "\<not> close_to 1 (gradient_color (16 - 1) 16) (118, 75, 162, 255)"
  by (simp add: gradient_color_15_16 close_to_def red_def green_def blue_def alpha_def)

text \<open>
  Claim C2, amended. For every edge length \<open>n\<close> of at least 1 the colour of row 0 is
  exactly (102, 126, 234, 255); for every \<open>n\<close> of at least 37 the colour of row
  \<open>n - 1\<close> is within 1 per channel of (118, 75, 162, 255). The bound 37 is the least
  possible: at 36 the blue channel of the last row is 164.
\<close>

theorem gradient_endpoints:
  assumes "1 \<le> n"
  shows "gradient_color 0 n = (102, 126, 234, 255)
       \<and> (37 \<le> n \<longrightarrow> close_to 1 (gradient_color (n - 1) n) (118, 75, 162, 255))"
proof -
  have "close_to 1 (gradient_color (n - 1) n) (118, 75, 162, 255)" if n: "37 \<le> n"
  proof -
    have "0 < n" "0 \<le> n - 1" "n - 1 \<le> n" using n by simp_all
    from gradient_color_bounds [OF this] last_row_red [OF n] last_row_green [OF n]
      last_row_blue [OF n] alpha_gradient_color [of "n - 1" n]
    show ?thesis
      by (simp add: close_to_def red_def green_def blue_def alpha_def split: prod.splits)
  qed
  then show ?thesis by (simp add: gradient_color_0)
qed

theorem gradient_endpoints_witness:
  "(1::int) \<le> 48 \<and> (37::int) \<le> 48 \<and> gradient_color 0 48 = (102, 126, 234, 255)
   \<and> close_to 1 (gradient_color (48 - 1) 48) (118, 75, 162, 255)"
  using gradient_endpoints [of 48] by simp


section \<open>Drawing preserves the canvas\<close>

lemma str_16: "str 16 = ''16''" by (simp add: str_def digits.simps)
lemma str_48: "str 48 = ''48''" by (simp add: str_def digits.simps)
lemma str_128: "str 128 = ''128''" by (simp add: str_def digits.simps)

lemma Image_new_ok:
  "0 \<le> sz \<Longrightarrow> Image_new m (sz, sz) c =
     Inr \<lparr>im_mode = m, im_size = (sz, sz),
          im_pixels = (\<lambda>p. if inside (sz, sz) p then Some (ink c) else None)\<rparr>"
  by (simp add: Image_new_def)

lemma draw_hline_size [simp]: "im_size (draw_hline im x0 x1 y c) = im_size im"
  and draw_hline_mode [simp]: "im_mode (draw_hline im x0 x1 y c) = im_mode im"
  by (simp_all add: draw_hline_def)

lemma draw_hline_pixels:
  "im_pixels (draw_hline im x0 x1 y c) p =
     (if inside (im_size im) p \<and> snd p = y \<and> min x0 x1 \<le> fst p \<and> fst p \<le> max x0 x1
      then Some (ink c) else im_pixels im p)"
  by (simp add: draw_hline_def)

lemma gradient_rows_size:
  "im_size (foldl (\<lambda>im i. draw_hline im 0 sz i (gradient_color i sz)) img rows) = im_size img"
  by (induction rows arbitrary: img) simp_all

lemma gradient_rows_mode:
  "im_mode (foldl (\<lambda>im i. draw_hline im 0 sz i (gradient_color i sz)) img rows) = im_mode img"
  by (induction rows arbitrary: img) simp_all

lemma gradient_rows_pixels:
  "im_pixels (foldl (\<lambda>im i. draw_hline im 0 sz i (gradient_color i sz)) img rows) p =
     (if inside (im_size img) p \<and> snd p \<in> set rows \<and> min 0 sz \<le> fst p \<and> fst p \<le> max 0 sz
      then Some (ink (gradient_color (snd p) sz)) else im_pixels img p)"
proof (induction rows rule: rev_induct)
  case Nil
  then show ?case by simp
next
  case (snoc r rows)
  then show ?case
    by (auto simp add: draw_hline_pixels gradient_rows_size)
qed

lemma gradient_background_size [simp]: "im_size (gradient_background img sz) = im_size img"
  by (simp add: gradient_background_def gradient_rows_size)

lemma gradient_background_mode [simp]: "im_mode (gradient_background img sz) = im_mode img"
  by (simp add: gradient_background_def gradient_rows_mode)

lemma ink_gradient_color:
  assumes "0 < sz" "0 \<le> i" "i < sz"
  shows "ink (gradient_color i sz) = gradient_color i sz"
proof -
  have "i \<le> sz" using assms by simp
  from gradient_color_bounds [OF assms(1,2) this] alpha_gradient_color [of i sz]
  show ?thesis
    by (cases "gradient_color i sz") (simp add: ink_def clip8_def red_def green_def blue_def alpha_def)
qed

lemma gradient_background_pixels:
  assumes "im_size img = (sz, sz)"
  shows "im_pixels (gradient_background img sz) p =
     (if inside (sz, sz) p then Some (gradient_color (snd p) sz) else im_pixels img p)"
proof (cases "inside (sz, sz) p")
  case True
  then have "0 < sz" "0 \<le> snd p" "snd p < sz" "0 \<le> fst p" "fst p < sz"
    by (auto simp add: inside_def split: prod.splits)
  then show ?thesis
    using True assms
    by (simp add: gradient_background_def gradient_rows_pixels ink_gradient_color)
next
  case False
  then show ?thesis using assms
    by (simp add: gradient_background_def gradient_rows_pixels)
qed

lemma blend8_opaque: "blend8 m 255 255 = 255"
proof -
  have "(255::int) * (255 - m) + 255 * m + 128 = 65153" by (simp add: algebra_simps)
  then show ?thesis by (simp add: blend8_def Let_def)
qed

lemma alpha_blend_opaque: "alpha dst = 255 \<Longrightarrow> alpha c = 255 \<Longrightarrow> alpha (blend m dst c) = 255"
  by (cases dst; cases c) (simp add: alpha_def blend_def blend8_opaque)


lemma paste_pixel_size [simp]: "im_size (paste_pixel im p m c) = im_size im"
  and paste_pixel_mode [simp]: "im_mode (paste_pixel im p m c) = im_mode im"
  by (simp_all add: paste_pixel_def split: option.splits)

lemma paste_pixel_dom [simp]: "dom (im_pixels (paste_pixel im p m c)) = dom (im_pixels im)"
  by (auto simp add: paste_pixel_def split: option.splits if_splits)

lemma paste_pixel_opaque:
  assumes "opaque im" "alpha c = 255"
  shows "opaque (paste_pixel im p m c)"
proof (cases "im_pixels im p")
  case None
  then show ?thesis using assms by (simp add: paste_pixel_def)
next
  case (Some dst)
  then have "alpha dst = 255" using assms(1) unfolding opaque_def by blast
  then have b: "alpha (blend (clip8 m) dst c) = 255" using assms(2) by (rule alpha_blend_opaque)
  show ?thesis
    unfolding opaque_def
  proof (intro allI impI)
    fix q c'
    assume q: "im_pixels (paste_pixel im p m c) q = Some c'"
    show "alpha c' = 255"
    proof (cases "q = p")
      case True
      then have "c' = blend (clip8 m) dst c" using q Some by (simp add: paste_pixel_def)
      then show ?thesis using b by simp
    next
      case False
      then have "im_pixels im q = Some c'" using q Some by (simp add: paste_pixel_def)
      then show ?thesis using assms(1) unfolding opaque_def by blast
    qed
  qed
qed

lemma draw_bitmap_size [simp]: "im_size (draw_bitmap im xy bitmap c) = im_size im"
  unfolding draw_bitmap_def by (induction bitmap arbitrary: im) (simp_all split: prod.splits)

lemma draw_bitmap_mode [simp]: "im_mode (draw_bitmap im xy bitmap c) = im_mode im"
  unfolding draw_bitmap_def by (induction bitmap arbitrary: im) (simp_all split: prod.splits)

lemma draw_bitmap_dom [simp]: "dom (im_pixels (draw_bitmap im xy bitmap c)) = dom (im_pixels im)"
  unfolding draw_bitmap_def by (induction bitmap arbitrary: im) (simp_all split: prod.splits)

lemma draw_bitmap_opaque:
  "opaque im \<Longrightarrow> alpha c = 255 \<Longrightarrow> opaque (draw_bitmap im xy bitmap c)"
  unfolding draw_bitmap_def
  by (induction bitmap arbitrary: im) (simp_all add: paste_pixel_opaque split: prod.splits)

lemma draw_text_size [simp]: "im_size (draw_text im xy text c f) = im_size im"
  and draw_text_mode [simp]: "im_mode (draw_text im xy text c f) = im_mode im"
  and draw_text_dom [simp]: "dom (im_pixels (draw_text im xy text c f)) = dom (im_pixels im)"
  by (simp_all add: draw_text_def)

lemma draw_text_opaque:
  "opaque im \<Longrightarrow> alpha (ink c) = 255 \<Longrightarrow> opaque (draw_text im xy text c f)"
  by (simp add: draw_text_def draw_bitmap_opaque)

lemma icon_image_eq:
  assumes "0 \<le> sz"
  shows "icon_image e sz =
     Inr (draw_text
            (gradient_background
               \<lparr>im_mode = RGBA, im_size = (sz, sz),
                im_pixels = (\<lambda>p. if inside (sz, sz) p then Some (ink (0, 0, 0, 0)) else None)\<rparr> sz)
            (text_position sz (choose_font e sz)) ''PA'' (255, 255, 255, 255) (choose_font e sz))"
  using assms by (simp add: icon_image_def Image_new_ok Let_def)

lemma icon_image_props:
  assumes "0 \<le> sz"
  obtains img where "icon_image e sz = Inr img" "im_size img = (sz, sz)" "im_mode img = RGBA"
    "dom (im_pixels img) = {p. inside (sz, sz) p}" "opaque img"
proof -
  let ?new = "\<lparr>im_mode = RGBA, im_size = (sz, sz),
      im_pixels = (\<lambda>p. if inside (sz, sz) p then Some (ink (0, 0, 0, 0)) else None)\<rparr>"
  let ?bg = "gradient_background ?new sz"
  let ?img = "draw_text ?bg (text_position sz (choose_font e sz)) ''PA'' (255, 255, 255, 255)
      (choose_font e sz)"
  have px: "im_pixels ?bg p =
      (if inside (sz, sz) p then Some (gradient_color (snd p) sz) else None)" for p
    by (simp add: gradient_background_pixels)
  have "opaque ?bg"
    unfolding opaque_def
  proof (intro allI impI)
    fix p c
    assume "im_pixels ?bg p = Some c"
    then have "c = gradient_color (snd p) sz"
      unfolding px by (simp split: if_splits)
    then show "alpha c = 255" by (simp add: alpha_gradient_color)
  qed
  then have 1: "opaque ?img"
    by (rule draw_text_opaque) (simp add: ink_def clip8_def alpha_def)
  have 2: "dom (im_pixels ?bg) = {p. inside (sz, sz) p}"
    unfolding dom_def px by (simp del: split_paired_All split_paired_Ex)
  show thesis
    by (rule that [of ?img]) (simp_all add: icon_image_eq [OF assms] 1 2)
qed



section \<open>The script\<close>

lemma create_icon_eq:
  assumes "icon_image e sz = Inr img"
  shows "create_icon e sz filename w =
     (case write_failure e filename of
        Some err \<Rightarrow> (Inl err, w)
      | None \<Rightarrow> (Inr (), w\<lparr>fs := (fs w)(filename \<mapsto> PNG img),
                          stdout := stdout w @ [''Created '' @ filename @ '' ('' @ str sz @ ''x'' @ str sz @ '')'']\<rparr>))"
  using assms by (simp add: create_icon_def write_file_def py_print_def split: option.splits)

lemma main_with_pil:
  assumes "pil_importable e"
    and "icon_image e 16 = Inr i16" "icon_image e 48 = Inr i48" "icon_image e 128 = Inr i128"
  shows "main e w =
     (case write_failure e ''icon16.png'' of
        Some err \<Rightarrow> (Inl err, w)
      | None \<Rightarrow>
         (case write_failure e ''icon48.png'' of
            Some err \<Rightarrow>
              (Inl err, w\<lparr>fs := (fs w)(''icon16.png'' \<mapsto> PNG i16),
                         stdout := stdout w @ [''Created icon16.png (16x16)'']\<rparr>)
          | None \<Rightarrow>
             (case write_failure e ''icon128.png'' of
                Some err \<Rightarrow>
                  (Inl err, w\<lparr>fs := (fs w)(''icon16.png'' \<mapsto> PNG i16, ''icon48.png'' \<mapsto> PNG i48),
                             stdout := stdout w @ [''Created icon16.png (16x16)'',
                               ''Created icon48.png (48x48)'']\<rparr>)
              | None \<Rightarrow>
                  (Inr (), w\<lparr>fs := (fs w)(''icon16.png'' \<mapsto> PNG i16, ''icon48.png'' \<mapsto> PNG i48,
                                ''icon128.png'' \<mapsto> PNG i128),
                             stdout := stdout w @ [''Created icon16.png (16x16)'',
                               ''Created icon48.png (48x48)'', ''Created icon128.png (128x128)'']\<rparr>))))"
  using assms
  by (simp add: main_def create_icon_eq str_16 str_48 str_128 split: option.splits)

lemma main_without_pil:
  assumes "\<not> pil_importable e"
  shows "main e w =
     (let w0 = w\<lparr>stdout := stdout w @
                  [''PIL/Pillow not available. Creating simple text files as placeholders.'']\<rparr>
      in case write_failure e ''icon16.png'' of
        Some err \<Rightarrow> (Inl err, w0)
      | None \<Rightarrow>
         (case write_failure e ''icon48.png'' of
            Some err \<Rightarrow>
              (Inl err, w0\<lparr>fs := (fs w)(''icon16.png'' \<mapsto> Text ''Placeholder icon 16x16'')\<rparr>)
          | None \<Rightarrow>
             (case write_failure e ''icon128.png'' of
                Some err \<Rightarrow>
                  (Inl err, w0\<lparr>fs := (fs w)(''icon16.png'' \<mapsto> Text ''Placeholder icon 16x16'',
                                  ''icon48.png'' \<mapsto> Text ''Placeholder icon 48x48'')\<rparr>)
              | None \<Rightarrow>
                  (Inr (), w0\<lparr>fs := (fs w)(''icon16.png'' \<mapsto> Text ''Placeholder icon 16x16'',
                                  ''icon48.png'' \<mapsto> Text ''Placeholder icon 48x48'',
                                  ''icon128.png'' \<mapsto> Text ''Placeholder icon 128x128'')\<rparr>))))"
  using assms
  by (simp add: main_def write_file_def py_print_def str_16 str_48 str_128 Let_def
      split: option.splits)



section \<open>The image of one icon\<close>

lemma new_canvas:
  assumes "0 \<le> sz"
  obtains img0 where "Image_new RGBA (sz, sz) (0, 0, 0, 0) = Inr img0" "im_size img0 = (sz, sz)"
    "\<And>p. inside (sz, sz) p \<Longrightarrow> im_pixels img0 p = Some (0, 0, 0, 0)"
    "\<And>e. icon_image e sz = Inr (draw_text (gradient_background img0 sz)
        (text_position sz (choose_font e sz)) ''PA'' (255, 255, 255, 255) (choose_font e sz))"
  using assms
  by (simp add: Image_new_ok icon_image_eq ink_def clip8_def)

text \<open>
  Claim C9. For every size of at least 1, every pixel of the image that \<open>create_icon\<close>
  produces is fully opaque. The canvas starts fully transparent, the gradient loop gives
  every pixel of every row a colour of alpha 255, and blending the white, alpha-255 text
  into an opaque pixel leaves its alpha at 255 whatever the glyph coverage.
\<close>

theorem icon_image_opaque:
  assumes "1 \<le> sz"
  shows "\<exists>img0 img. Image_new RGBA (sz, sz) (0, 0, 0, 0) = Inr img0 \<and> icon_image e sz = Inr img
     \<and> (\<forall>p. inside (sz, sz) p \<longrightarrow>
            im_pixels img0 p = Some (0, 0, 0, 0)
          \<and> im_pixels (gradient_background img0 sz) p = Some (gradient_color (snd p) sz)
          \<and> alpha (gradient_color (snd p) sz) = 255
          \<and> (\<exists>c. im_pixels img p = Some c \<and> alpha c = 255))
     \<and> (\<forall>p c. im_pixels img p = Some c \<longrightarrow> alpha c = 255)"
proof -
  have sz: "0 \<le> sz" using assms by simp
  obtain img0 where img0: "Image_new RGBA (sz, sz) (0, 0, 0, 0) = Inr img0" "im_size img0 = (sz, sz)"
    "\<And>p. inside (sz, sz) p \<Longrightarrow> im_pixels img0 p = Some (0, 0, 0, 0)"
    by (rule new_canvas [OF sz]) blast
  obtain img where img: "icon_image e sz = Inr img" "dom (im_pixels img) = {p. inside (sz, sz) p}"
    "opaque img"
    by (rule icon_image_props [OF sz])
  have "\<exists>c. im_pixels img p = Some c \<and> alpha c = 255" if "inside (sz, sz) p" for p
  proof -
    from that img(2) have "p \<in> dom (im_pixels img)" by simp
    then obtain c where "im_pixels img p = Some c" by blast
    moreover from this img(3) have "alpha c = 255" unfolding opaque_def by blast
    ultimately show ?thesis by blast
  qed
  moreover have "im_pixels (gradient_background img0 sz) p = Some (gradient_color (snd p) sz)"
    if "inside (sz, sz) p" for p
    using that by (simp add: gradient_background_pixels [OF img0(2)])
  moreover have "\<forall>p c. im_pixels img p = Some c \<longrightarrow> alpha c = 255"
    using img(3) unfolding opaque_def .
  ultimately show ?thesis
    using img0(1,3) img(1) alpha_gradient_color by blast
qed

theorem icon_image_opaque_witness:
  "(1::int) \<le> 16 \<and> inside (16, 16) (3, 5)
   \<and> (\<exists>img c. icon_image sample_env 16 = Inr img \<and> im_pixels img (3, 5) = Some c \<and> alpha c = 255)"
proof -
  have "inside (16, 16) (3, 5)" by (simp add: inside_def)
  with icon_image_opaque [of 16 sample_env] show ?thesis by fastforce
qed

lemma choose_font_loaded:
  "truetype e ''/usr/share/fonts/truetype/dejavu/DejaVuSans-Bold.ttf'' (sz div 2) = Inr f
   \<Longrightarrow> choose_font e sz = f"
  by (simp add: choose_font_def)

lemma fst_create_icon:
  assumes "0 \<le> sz"
  shows "fst (create_icon e sz filename w) =
     (case write_failure e filename of Some x \<Rightarrow> Inl x | None \<Rightarrow> Inr ())"
proof -
  obtain img where "icon_image e sz = Inr img" by (rule icon_image_props [OF assms])
  then show ?thesis by (simp add: create_icon_eq split: option.splits)
qed

text \<open>
  Claim C4. For every size of at least 1, \<open>create_icon\<close> asks for the bold face at the
  fixed path and at \<open>size // 2\<close> points. When that load succeeds, the face it returns
  is the one used; when it fails, with any error, the built-in face is used instead and the
  text is laid out with the metrics of that face. In both cases the text is drawn with the
  chosen face and no error of the load reaches the caller: the call fails only if writing
  the file does.
\<close>

theorem font_fallback:
  assumes "1 \<le> sz"
  shows "(\<forall>f. truetype e ''/usr/share/fonts/truetype/dejavu/DejaVuSans-Bold.ttf'' (sz div 2) = Inr f
            \<longrightarrow> choose_font e sz = f)
     \<and> (\<forall>err. truetype e ''/usr/share/fonts/truetype/dejavu/DejaVuSans-Bold.ttf'' (sz div 2) = Inl err
            \<longrightarrow> choose_font e sz = load_default e
              \<and> (\<exists>img0. Image_new RGBA (sz, sz) (0, 0, 0, 0) = Inr img0
                   \<and> icon_image e sz =
                       Inr (draw_text (gradient_background img0 sz)
                              (text_position sz (load_default e))
                              ''PA'' (255, 255, 255, 255) (load_default e))))
     \<and> (\<exists>img0. Image_new RGBA (sz, sz) (0, 0, 0, 0) = Inr img0
          \<and> icon_image e sz =
              Inr (draw_text (gradient_background img0 sz) (text_position sz (choose_font e sz))
                     ''PA'' (255, 255, 255, 255) (choose_font e sz)))
     \<and> fst (create_icon e sz filename w) =
         (case write_failure e filename of Some x \<Rightarrow> Inl x | None \<Rightarrow> Inr ())"
proof -
  have sz: "0 \<le> sz" using assms by simp
  have ok: "choose_font e sz = f"
    if "truetype e ''/usr/share/fonts/truetype/dejavu/DejaVuSans-Bold.ttf'' (sz div 2) = Inr f" for f
    using that by (rule choose_font_loaded)
  have ko: "choose_font e sz = load_default e"
    if "truetype e ''/usr/share/fonts/truetype/dejavu/DejaVuSans-Bold.ttf'' (sz div 2) = Inl err" for err
    using that by (simp add: choose_font_def)
  obtain img0 where img0: "Image_new RGBA (sz, sz) (0, 0, 0, 0) = Inr img0"
    "icon_image e sz = Inr (draw_text (gradient_background img0 sz)
        (text_position sz (choose_font e sz)) ''PA'' (255, 255, 255, 255) (choose_font e sz))"
    by (rule new_canvas [OF sz]) blast
  have fallback: "\<exists>img0. Image_new RGBA (sz, sz) (0, 0, 0, 0) = Inr img0
      \<and> icon_image e sz =
          Inr (draw_text (gradient_background img0 sz) (text_position sz (load_default e))
                 ''PA'' (255, 255, 255, 255) (load_default e))"
    if "truetype e ''/usr/share/fonts/truetype/dejavu/DejaVuSans-Bold.ttf'' (sz div 2) = Inl err" for err
    using img0 ko [OF that] by simp
  from ok ko fallback img0 fst_create_icon [OF sz, of e filename w] show ?thesis by blast
qed

theorem font_fallback_witness:
  "(1::int) \<le> 1
   \<and> truetype sample_env ''/usr/share/fonts/truetype/dejavu/DejaVuSans-Bold.ttf'' (1 div 2)
       = Inl (OSError ''cannot open resource'')
   \<and> choose_font sample_env 1 = sample_default_face
   \<and> fst (create_icon sample_env 1 ''icon1.png'' sample_world) = Inr ()
   \<and> (1::int) \<le> 16
   \<and> truetype sample_env ''/usr/share/fonts/truetype/dejavu/DejaVuSans-Bold.ttf'' (16 div 2)
       = Inr (sample_face 8)
   \<and> choose_font sample_env 16 = sample_face 8"
proof -
  have 1: "truetype sample_env ''/usr/share/fonts/truetype/dejavu/DejaVuSans-Bold.ttf'' (1 div 2)
       = Inl (OSError ''cannot open resource'')"
    by (simp add: sample_env_def)
  have 2: "truetype sample_env ''/usr/share/fonts/truetype/dejavu/DejaVuSans-Bold.ttf'' (16 div 2)
       = Inr (sample_face 8)"
    by (simp add: sample_env_def)
  have 3: "load_default sample_env = sample_default_face" "write_failure sample_env ''icon1.png'' = None"
    by (simp_all add: sample_env_def)
  from font_fallback [of 1 sample_env "''icon1.png''" sample_world]
    font_fallback [of 16 sample_env "''icon16.png''" sample_world] 1 2 3
  show ?thesis by simp
qed

text \<open>
  Claim C3. For every size of at least 1 and every bounding box measured for the text, the
  position at which \<open>create_icon\<close> draws the text is
  \<open>((size - text_width) // 2, (size - text_height) // 2)\<close>, computed with integer
  (floor) division in each component and never clamped: a component is negative exactly
  when the text is larger than the canvas in that direction.
\<close>

theorem text_origin_centered:
  assumes "1 \<le> sz" and "font_bbox (choose_font e sz) ''PA'' = (l, t, r, b)"
  shows "text_position sz (choose_font e sz) = ((sz - (r - l)) div 2, (sz - (b - t)) div 2)
     \<and> (\<exists>img0. Image_new RGBA (sz, sz) (0, 0, 0, 0) = Inr img0
          \<and> icon_image e sz =
              Inr (draw_text (gradient_background img0 sz)
                     ((sz - (r - l)) div 2, (sz - (b - t)) div 2)
                     ''PA'' (255, 255, 255, 255) (choose_font e sz)))
     \<and> ((sz - (r - l)) div 2 < 0 \<longleftrightarrow> sz < r - l)
     \<and> ((sz - (b - t)) div 2 < 0 \<longleftrightarrow> sz < b - t)"
proof -
  have sz: "0 \<le> sz" using assms by simp
  have p: "text_position sz (choose_font e sz) = ((sz - (r - l)) div 2, (sz - (b - t)) div 2)"
    using assms(2) by (simp add: text_position_def textbbox_def Let_def)
  obtain img0 where "Image_new RGBA (sz, sz) (0, 0, 0, 0) = Inr img0"
    "icon_image e sz = Inr (draw_text (gradient_background img0 sz)
        (text_position sz (choose_font e sz)) ''PA'' (255, 255, 255, 255) (choose_font e sz))"
    by (rule new_canvas [OF sz]) blast
  moreover have "(sz - (r - l)) div 2 < 0 \<longleftrightarrow> sz < r - l" by linarith
  moreover have "(sz - (b - t)) div 2 < 0 \<longleftrightarrow> sz < b - t" by linarith
  ultimately show ?thesis using p by simp
qed

theorem text_origin_centered_witness:
  "(1::int) \<le> 1 \<and> font_bbox (choose_font sample_env 1) ''PA'' = (0, 0, 12, 11)
   \<and> text_position 1 (choose_font sample_env 1) = (- 6, - 5)"
proof -
  have "font_bbox (choose_font sample_env 1) ''PA'' = (0, 0, 12, 11)"
    by (simp add: choose_font_def sample_env_def sample_default_face_def)
  with text_origin_centered [of 1 sample_env 0 0 12 11] show ?thesis by simp
qed



section \<open>Runs of the script\<close>

lemma icons_exist:
  "\<exists>a b c. icon_image e 16 = Inr a \<and> icon_image e 48 = Inr b \<and> icon_image e 128 = Inr c
       \<and> im_size a = (16, 16) \<and> im_size b = (48, 48) \<and> im_size c = (128, 128)
       \<and> im_mode a = RGBA \<and> im_mode b = RGBA \<and> im_mode c = RGBA"
proof -
  obtain a where "icon_image e 16 = Inr a" "im_size a = (16, 16)" "im_mode a = RGBA"
    by (rule icon_image_props [of 16 e]) simp_all
  moreover obtain b where "icon_image e 48 = Inr b" "im_size b = (48, 48)" "im_mode b = RGBA"
    by (rule icon_image_props [of 48 e]) simp_all
  moreover obtain c where "icon_image e 128 = Inr c" "im_size c = (128, 128)" "im_mode c = RGBA"
    by (rule icon_image_props [of 128 e]) simp_all
  ultimately show ?thesis by blast
qed

lemma fst_main:
  "fst (main e w) =
     (case write_failure e ''icon16.png'' of
        Some err \<Rightarrow> Inl err
      | None \<Rightarrow>
         (case write_failure e ''icon48.png'' of
            Some err \<Rightarrow> Inl err
          | None \<Rightarrow>
             (case write_failure e ''icon128.png'' of
                Some err \<Rightarrow> Inl err
              | None \<Rightarrow> Inr ())))"
proof (cases "pil_importable e")
  case True
  obtain a b c where "icon_image e 16 = Inr a" "icon_image e 48 = Inr b" "icon_image e 128 = Inr c"
    using icons_exist [of e] by blast
  from main_with_pil [OF True this] show ?thesis by (simp split: option.splits)
next
  case False
  from main_without_pil [OF this] show ?thesis by (simp add: Let_def split: option.splits)
qed

lemma script_success_iff:
  "fst (script e w) = Inr () \<longleftrightarrow>
     pil_importable e \<and> write_failure e ''icon16.png'' = None
     \<and> write_failure e ''icon48.png'' = None \<and> write_failure e ''icon128.png'' = None"
  by (simp add: script_def fst_main split: option.splits)

lemma script_success:
  assumes "fst (script e w) = Inr ()"
    and "icon_image e 16 = Inr i16" "icon_image e 48 = Inr i48" "icon_image e 128 = Inr i128"
  shows "script e w =
     (Inr (), w\<lparr>fs := (fs w)(''icon16.png'' \<mapsto> PNG i16, ''icon48.png'' \<mapsto> PNG i48,
                    ''icon128.png'' \<mapsto> PNG i128),
                 stdout := stdout w @ [''Created icon16.png (16x16)'',
                    ''Created icon48.png (48x48)'', ''Created icon128.png (128x128)'']\<rparr>)"
proof -
  from assms(1) have ok: "pil_importable e" "write_failure e ''icon16.png'' = None"
    "write_failure e ''icon48.png'' = None" "write_failure e ''icon128.png'' = None"
    by (simp_all add: script_success_iff)
  from main_with_pil [OF ok(1) assms(2-4)] ok show ?thesis by (simp add: script_def)
qed

lemma sample_run_succeeds: "fst (script sample_env w) = Inr ()"
  by (simp add: script_success_iff sample_env_def)

text \<open>
  Claim C5. After every successful run, which needs Pillow to be importable, each of the
  three output files holds an image of exactly \<open>size\<close> by \<open>size\<close> pixels in the
  mode RGBA.
\<close>

theorem output_images_square_rgba:
  assumes "fst (script e w) = Inr ()"
  shows "pil_importable e
     \<and> (\<forall>(n, name) \<in> set icon_specs.
          \<exists>img. fs (snd (script e w)) name = Some (PNG img)
               \<and> im_size img = (n, n) \<and> im_mode img = RGBA)"
proof -
  obtain a b c where i: "icon_image e 16 = Inr a" "icon_image e 48 = Inr b" "icon_image e 128 = Inr c"
    and p: "im_size a = (16, 16)" "im_size b = (48, 48)" "im_size c = (128, 128)"
      "im_mode a = RGBA" "im_mode b = RGBA" "im_mode c = RGBA"
    using icons_exist [of e] by blast
  have "pil_importable e" using assms by (simp add: script_success_iff)
  with script_success [OF assms i] p show ?thesis
    by (simp add: icon_specs_def)
qed

theorem output_images_square_rgba_witness:
  "fst (script sample_env sample_world) = Inr ()
   \<and> (\<exists>img. fs (snd (script sample_env sample_world)) ''icon48.png'' = Some (PNG img)
          \<and> im_size img = (48, 48) \<and> im_mode img = RGBA)"
  using output_images_square_rgba [of sample_env sample_world] sample_run_succeeds [of sample_world]
  by (simp add: icon_specs_def)

text \<open>
  Claim C7. Every successful run handles the three sizes in the order 16, 48, 128, as its
  three confirmation lines show, and writes exactly the files \<open>icon16.png\<close>,
  \<open>icon48.png\<close> and \<open>icon128.png\<close> in the working directory, leaving every other
  file as it was.
\<close>

theorem successful_run_outputs:
  assumes "fst (script e w) = Inr ()"
  shows "stdout (snd (script e w)) =
       stdout w @ [''Created icon16.png (16x16)'', ''Created icon48.png (48x48)'',
                   ''Created icon128.png (128x128)'']
     \<and> (\<exists>i16 i48 i128.
          icon_image e 16 = Inr i16 \<and> icon_image e 48 = Inr i48 \<and> icon_image e 128 = Inr i128
        \<and> fs (snd (script e w)) =
            (fs w)(''icon16.png'' \<mapsto> PNG i16, ''icon48.png'' \<mapsto> PNG i48,
                   ''icon128.png'' \<mapsto> PNG i128))
     \<and> dom (fs (snd (script e w))) = dom (fs w) \<union> {''icon16.png'', ''icon48.png'', ''icon128.png''}"
proof -
  obtain a b c where i: "icon_image e 16 = Inr a" "icon_image e 48 = Inr b" "icon_image e 128 = Inr c"
    using icons_exist [of e] by blast
  from script_success [OF assms i] i show ?thesis by auto
qed

theorem successful_run_outputs_witness:
  "fst (script sample_env sample_world) = Inr ()
   \<and> stdout (snd (script sample_env sample_world)) =
       [''Created icon16.png (16x16)'', ''Created icon48.png (48x48)'',
        ''Created icon128.png (128x128)'']
   \<and> dom (fs (snd (script sample_env sample_world))) = {''icon16.png'', ''icon48.png'', ''icon128.png''}"
  using successful_run_outputs [of sample_env sample_world] sample_run_succeeds [of sample_world]
  by (simp add: sample_world_def)

text \<open>
  Claim C1 says that a run without Pillow writes the three placeholder text files and
  reports no error. The fallback branch of \<open>main\<close> does write them
  (\<open>main_without_pil\<close>), but no run reaches it: the unguarded import on line 7 raises
  ImportError before \<open>main\<close> is called. On the sample interpreter without Pillow the run
  ends with ImportError and no file, whereas \<open>main\<close> alone would have written
  \<open>Placeholder icon 16x16\<close>.
\<close>

theorem script_without_pil_fails:
  "script sample_env_without_pil sample_world = (Inl ImportError, sample_world)
   \<and> fs (snd (script sample_env_without_pil sample_world)) ''icon16.png'' = None
   \<and> fs (snd (main sample_env_without_pil sample_world)) ''icon16.png''
       = Some (Text ''Placeholder icon 16x16'')"
proof -
  have np: "\<not> pil_importable sample_env_without_pil"
    by (simp add: sample_env_without_pil_def sample_env_def)
  have "script sample_env_without_pil sample_world = (Inl ImportError, sample_world)"
    using np by (simp add: script_def)
  moreover have "fs sample_world ''icon16.png'' = None" by (simp add: sample_world_def)
  moreover have "fs (snd (main sample_env_without_pil sample_world)) ''icon16.png''
       = Some (Text ''Placeholder icon 16x16'')"
    by (simp add: main_without_pil [OF np] Let_def)
       (simp add: sample_env_without_pil_def sample_env_def)
  ultimately show ?thesis by simp
qed

lemma script_without_pil: "\<not> pil_importable e \<Longrightarrow> script e w = (Inl ImportError, w)"
  by (simp add: script_def)

text \<open>
  Claim C8. An error raised when a file is opened for writing, in the image path or in the
  placeholder path, is caught nowhere: the first of the three files whose write fails ends
  \<open>main\<close>, and with it the run, with that very error, and the files after it are not
  touched.
\<close>

theorem write_errors_propagate:
  assumes "(n, name) \<in> set icon_specs" and "write_failure e name = Some err"
    and "\<forall>(m, other) \<in> set icon_specs. m < n \<longrightarrow> write_failure e other = None"
  shows "fst (main e w) = Inl err
     \<and> (pil_importable e \<longrightarrow> fst (script e w) = Inl err)
     \<and> (\<forall>(m, other) \<in> set icon_specs. n < m \<longrightarrow> fs (snd (main e w)) other = fs w other)"
proof -
  obtain a b c where i: "icon_image e 16 = Inr a" "icon_image e 48 = Inr b" "icon_image e 128 = Inr c"
    using icons_exist [of e] by blast
  have m: "fs (snd (main e w)) other = fs w other"
    if "write_failure e ''icon16.png'' = Some err" for other
    using that main_with_pil [OF _ i, of w] main_without_pil [of e w]
    by (cases "pil_importable e") (simp_all add: Let_def)
  have m2: "fs (snd (main e w)) ''icon128.png'' = fs w ''icon128.png''"
    if "write_failure e ''icon16.png'' = None" "write_failure e ''icon48.png'' = Some err"
    using that main_with_pil [OF _ i, of w] main_without_pil [of e w]
    by (cases "pil_importable e") (simp_all add: Let_def)
  from assms(1) consider "n = 16" "name = ''icon16.png''" | "n = 48" "name = ''icon48.png''"
    | "n = 128" "name = ''icon128.png''"
    by (auto simp add: icon_specs_def)
  then show ?thesis
  proof cases
    case 1
    then show ?thesis using assms(2) m
      by (simp add: fst_main script_def icon_specs_def)
  next
    case 2
    then show ?thesis using assms(2,3) m2
      by (simp add: fst_main script_def icon_specs_def)
  next
    case 3
    then show ?thesis using assms(2,3)
      by (simp add: fst_main script_def icon_specs_def)
  qed
qed

theorem write_errors_propagate_witness:
  "(48, ''icon48.png'') \<in> set icon_specs
   \<and> write_failure sample_env_denied ''icon48.png'' = Some (OSError ''Permission denied'')
   \<and> write_failure sample_env_denied ''icon16.png'' = None
   \<and> fst (script sample_env_denied sample_world) = Inl (OSError ''Permission denied'')
   \<and> fs (snd (main sample_env_denied sample_world)) ''icon128.png'' = None"
proof -
  have 1: "(48, ''icon48.png'') \<in> set icon_specs" by (simp add: icon_specs_def)
  have 2: "write_failure sample_env_denied ''icon48.png'' = Some (OSError ''Permission denied'')"
    by (simp add: sample_env_denied_def)
  have 3: "\<forall>(m, other) \<in> set icon_specs. m < 48 \<longrightarrow> write_failure sample_env_denied other = None"
    by (simp add: icon_specs_def sample_env_denied_def)
  have 4: "pil_importable sample_env_denied" by (simp add: sample_env_denied_def sample_env_def)
  have 5: "write_failure sample_env_denied ''icon16.png'' = None"
    by (simp add: sample_env_denied_def)
  from write_errors_propagate [OF 1 2 3, of sample_world] 1 2 4 5 show ?thesis
    by (simp add: icon_specs_def sample_world_def)
qed

end
